theory Spec2Isabelle
  imports Complex_Main "HOL-Library.Monad_Syntax"
begin

section \<open>Test doubles of the bridge package (internal/bridge/mocks.go)\<close>

text \<open>
  The test doubles are modelled one caller at a time first: every method is a function
  from the state of the object it is called on to its result and the state it leaves
  behind. A method that does not return normally (its goroutine blocks for ever, or the
  Go runtime stops the program) yields \<open>None\<close> or a fault value, so that ``the call
  returns'' is something a theorem states and proves. The two methods of \<open>TestUpdater\<close>
  that read and write the legacy record are then modelled once more in single steps,
  for several goroutines that run interleaved.

  Pointers to structs that the methods are called on stand for the struct they point to
  (a method value on a nil receiver is not modelled). Values that the code only stores
  and hands back (\<open>*semver.Version\<close>, \<open>updater.VersionInfo\<close>, contexts, downloaders,
  cookies) are type variables: the code never looks inside them, and a nil pointer or a
  zero value is one of their values like any other.
\<close>

subsection \<open>Go values used by the doubles\<close>

text \<open>
  A Go \<open>error\<close> result: \<open>None\<close> is the nil error, \<open>Some msg\<close> an error with its message.
\<close>

type_synonym error = "string option"

abbreviation (input) nil_error :: error where
  "nil_error \<equiv> None"

text \<open>
  A slice value is either nil or holds a sequence of elements. (The model takes slices
  as values; sharing of the backing array between caller and callee is not modelled.)
\<close>

datatype 'a slice = NilSlice | Slice "'a list"

subsection \<open>sync.RWMutex, as one caller sees it\<close>

text \<open>
  The state of a reader/writer mutex: whether a writer holds it and how many readers do.
  The zero value is the unlocked mutex. With a single caller, \<open>Lock\<close> on a mutex that is
  held never returns, and neither does \<open>RLock\<close> on a mutex held by a writer; unlocking a
  mutex that is not locked is a fatal runtime error. All these are \<open>None\<close>.
\<close>

record RWMutex =
  writer :: bool
  readers :: nat

definition RWMutex_zero :: RWMutex where
  "RWMutex_zero = \<lparr>writer = False, readers = 0\<rparr>"

definition Lock :: "RWMutex \<Rightarrow> RWMutex option" where
  "Lock l = (if writer l \<or> 0 < readers l then None else Some (l\<lparr>writer := True\<rparr>))"

definition Unlock :: "RWMutex \<Rightarrow> RWMutex option" where
  "Unlock l = (if writer l then Some (l\<lparr>writer := False\<rparr>) else None)"

definition RLock :: "RWMutex \<Rightarrow> RWMutex option" where
  "RLock l = (if writer l then None else Some (l\<lparr>readers := Suc (readers l)\<rparr>))"

definition RUnlock :: "RWMutex \<Rightarrow> RWMutex option" where
  "RUnlock l = (if 0 < readers l then Some (l\<lparr>readers := readers l - 1\<rparr>) else None)"

subsection \<open>TestUpdater\<close>

text \<open>
  \<open>updater.VersionInfoLegacy\<close> is declared outside this file; the record has the fields
  that the source names. \<open>RolloutProportion\<close> is a float64 in Go; the code only ever
  stores the literal \<open>1.0\<close> in it, which float64 represents exactly, and does no
  arithmetic on it, so the field is a real number here.
\<close>

record 'v VersionInfoLegacy =
  Version :: 'v
  MinAuto :: 'v
  RolloutProportion :: real

record ('v, 'vi) TestUpdater =
  latest :: "'v VersionInfoLegacy"
  releases :: 'vi
  lock :: RWMutex

text \<open>
  \<open>NewTestUpdater\<close> sets only \<open>latest\<close>; Go gives the other fields their zero values.
  The type \<open>updater.VersionInfo\<close> is declared outside this file, so its zero value is
  the parameter \<open>zeroVersionInfo\<close>.
\<close>

definition NewTestUpdater :: "'vi \<Rightarrow> 'v \<Rightarrow> 'v \<Rightarrow> ('v, 'vi) TestUpdater" where
  "NewTestUpdater zeroVersionInfo version minAuto =
     \<lparr>latest = \<lparr>Version = version, MinAuto = minAuto, RolloutProportion = 1\<rparr>,
      releases = zeroVersionInfo,
      lock = RWMutex_zero\<rparr>"

definition SetLatestVersionLegacy ::
  "'v \<Rightarrow> 'v \<Rightarrow> ('v, 'vi) TestUpdater \<Rightarrow> ('v, 'vi) TestUpdater option" where
  "SetLatestVersionLegacy version minAuto testUpdater =
     do {
       l \<leftarrow> Lock (lock testUpdater);
       let u = testUpdater\<lparr>lock := l\<rparr>;
       let u = u\<lparr>latest := \<lparr>Version = version, MinAuto = minAuto, RolloutProportion = 1\<rparr>\<rparr>;
       l' \<leftarrow> Unlock (lock u);
       Some (u\<lparr>lock := l'\<rparr>)
     }"

definition GetVersionInfoLegacy ::
  "'ctx \<Rightarrow> 'dl \<Rightarrow> 'ch \<Rightarrow> ('v, 'vi) TestUpdater
     \<Rightarrow> (('v VersionInfoLegacy \<times> error) \<times> ('v, 'vi) TestUpdater) option" where
  "GetVersionInfoLegacy ctx downloader channel testUpdater =
     do {
       l \<leftarrow> RLock (lock testUpdater);
       let u = testUpdater\<lparr>lock := l\<rparr>;
       let result = (latest u, nil_error);
       l' \<leftarrow> RUnlock (lock u);
       Some (result, u\<lparr>lock := l'\<rparr>)
     }"

definition InstallUpdateLegacy ::
  "'ctx \<Rightarrow> 'dl \<Rightarrow> 'v VersionInfoLegacy \<Rightarrow> ('v, 'vi) TestUpdater
     \<Rightarrow> (error \<times> ('v, 'vi) TestUpdater) option" where
  "InstallUpdateLegacy ctx downloader info testUpdater = Some (nil_error, testUpdater)"

definition RemoveOldUpdates ::
  "('v, 'vi) TestUpdater \<Rightarrow> (error \<times> ('v, 'vi) TestUpdater) option" where
  "RemoveOldUpdates testUpdater = Some (nil_error, testUpdater)"

definition SetLatestVersion ::
  "'vi \<Rightarrow> ('v, 'vi) TestUpdater \<Rightarrow> ('v, 'vi) TestUpdater option" where
  "SetLatestVersion rels testUpdater =
     do {
       l \<leftarrow> Lock (lock testUpdater);
       let u = testUpdater\<lparr>lock := l\<rparr>;
       let u = u\<lparr>releases := rels\<rparr>;
       l' \<leftarrow> Unlock (lock u);
       Some (u\<lparr>lock := l'\<rparr>)
     }"

definition GetVersionInfo ::
  "'ctx \<Rightarrow> 'dl \<Rightarrow> ('v, 'vi) TestUpdater
     \<Rightarrow> (('vi \<times> error) \<times> ('v, 'vi) TestUpdater) option" where
  "GetVersionInfo ctx downloader testUpdater =
     do {
       l \<leftarrow> RLock (lock testUpdater);
       let u = testUpdater\<lparr>lock := l\<rparr>;
       let result = (releases u, nil_error);
       l' \<leftarrow> RUnlock (lock u);
       Some (result, u\<lparr>lock := l'\<rparr>)
     }"

definition InstallUpdate ::
  "'ctx \<Rightarrow> 'dl \<Rightarrow> 'rel \<Rightarrow> ('v, 'vi) TestUpdater
     \<Rightarrow> (error \<times> ('v, 'vi) TestUpdater) option" where
  "InstallUpdate ctx downloader release testUpdater = Some (nil_error, testUpdater)"

text \<open>
  The public operations of a \<open>TestUpdater\<close> as data, and a run of a sequence of calls,
  one after the other, each on the state the one before left. The run keeps the state
  and drops the results; it is \<open>None\<close> as soon as one call does not return.
\<close>

datatype ('v, 'vi, 'ctx, 'dl, 'ch, 'rel) call =
    CallSetLatestVersionLegacy 'v 'v
  | CallGetVersionInfoLegacy 'ctx 'dl 'ch
  | CallInstallUpdateLegacy 'ctx 'dl "'v VersionInfoLegacy"
  | CallRemoveOldUpdates
  | CallSetLatestVersion 'vi
  | CallGetVersionInfo 'ctx 'dl
  | CallInstallUpdate 'ctx 'dl 'rel

fun step :: "('v, 'vi, 'ctx, 'dl, 'ch, 'rel) call \<Rightarrow> ('v, 'vi) TestUpdater
    \<Rightarrow> ('v, 'vi) TestUpdater option" where
  "step (CallSetLatestVersionLegacy v m) u = SetLatestVersionLegacy v m u"
| "step (CallGetVersionInfoLegacy ctx dl ch) u = map_option snd (GetVersionInfoLegacy ctx dl ch u)"
| "step (CallInstallUpdateLegacy ctx dl info) u = map_option snd (InstallUpdateLegacy ctx dl info u)"
| "step CallRemoveOldUpdates u = map_option snd (RemoveOldUpdates u)"
| "step (CallSetLatestVersion r) u = SetLatestVersion r u"
| "step (CallGetVersionInfo ctx dl) u = map_option snd (GetVersionInfo ctx dl u)"
| "step (CallInstallUpdate ctx dl rel) u = map_option snd (InstallUpdate ctx dl rel u)"

fun run :: "('v, 'vi, 'ctx, 'dl, 'ch, 'rel) call list \<Rightarrow> ('v, 'vi) TestUpdater
    \<Rightarrow> ('v, 'vi) TestUpdater option" where
  "run [] u = Some u"
| "run (c # cs) u = (case step c u of None \<Rightarrow> None | Some u' \<Rightarrow> run cs u')"

subsection \<open>Goroutines calling one TestUpdater\<close>

text \<open>
  Several goroutines call \<open>SetLatestVersionLegacy\<close> and \<open>GetVersionInfoLegacy\<close> on one
  \<open>TestUpdater\<close>. A goroutine has the calls it still has to make, its position inside
  the call it is making, and the results its reads have returned so far. A call is not
  atomic. It goes through the steps of its body, and between two steps of one goroutine
  the others may take any number of theirs:
  \<^item> \<open>SetLatestVersionLegacy\<close>: \<open>lock.Lock()\<close>; the store of the struct literal into
    \<open>latest\<close>, one field at a time; the deferred \<open>lock.Unlock()\<close>;
  \<^item> \<open>GetVersionInfoLegacy\<close>: \<open>lock.RLock()\<close>; the copy of \<open>latest\<close> into the result,
    one field at a time; the deferred \<open>lock.RUnlock()\<close>; the return. Its three
    arguments are ignored by the code and left out of the call.

  The position says which step comes next and holds the arguments of the write or the
  fields read so far. A goroutine whose \<open>Lock\<close> or \<open>RLock\<close> is not granted waits: its
  step changes nothing. (sync.RWMutex also makes \<open>RLock\<close> wait while a writer is
  waiting; the model grants it, so it has every schedule of the program and more.)
  Unlocking a mutex that is not locked is the runtime's fatal error, the position
  \<open>Fatal\<close>. Every store and load takes effect at once, in the order of the schedule.
\<close>

datatype 'v ucall = DoSetLatestVersionLegacy 'v 'v | DoGetVersionInfoLegacy

datatype 'v pc =
    Idle
  | Set_Version 'v 'v
  | Set_MinAuto 'v 'v
  | Set_RolloutProportion 'v 'v
  | Set_Unlock 'v 'v
  | Get_Version
  | Get_MinAuto 'v
  | Get_RolloutProportion 'v 'v
  | Get_RUnlock 'v 'v real
  | Fatal

record 'v goroutine =
  todo :: "'v ucall list"
  pc :: "'v pc"
  returned :: "('v VersionInfoLegacy \<times> error) list"

definition gstep ::
  "('v, 'vi) TestUpdater \<Rightarrow> 'v goroutine \<Rightarrow> ('v, 'vi) TestUpdater \<times> 'v goroutine" where
  "gstep u g =
     (case pc g of
        Idle \<Rightarrow>
          (case todo g of
             [] \<Rightarrow> (u, g)
           | DoSetLatestVersionLegacy v m # rest \<Rightarrow>
               (case Lock (lock u) of
                  None \<Rightarrow> (u, g)
                | Some l \<Rightarrow> (u\<lparr>lock := l\<rparr>, g\<lparr>todo := rest, pc := Set_Version v m\<rparr>))
           | DoGetVersionInfoLegacy # rest \<Rightarrow>
               (case RLock (lock u) of
                  None \<Rightarrow> (u, g)
                | Some l \<Rightarrow> (u\<lparr>lock := l\<rparr>, g\<lparr>todo := rest, pc := Get_Version\<rparr>)))
      | Set_Version v m \<Rightarrow>
          (u\<lparr>latest := (latest u)\<lparr>Version := v\<rparr>\<rparr>, g\<lparr>pc := Set_MinAuto v m\<rparr>)
      | Set_MinAuto v m \<Rightarrow>
          (u\<lparr>latest := (latest u)\<lparr>MinAuto := m\<rparr>\<rparr>, g\<lparr>pc := Set_RolloutProportion v m\<rparr>)
      | Set_RolloutProportion v m \<Rightarrow>
          (u\<lparr>latest := (latest u)\<lparr>RolloutProportion := 1\<rparr>\<rparr>, g\<lparr>pc := Set_Unlock v m\<rparr>)
      | Set_Unlock v m \<Rightarrow>
          (case Unlock (lock u) of
             None \<Rightarrow> (u, g\<lparr>pc := Fatal\<rparr>)
           | Some l \<Rightarrow> (u\<lparr>lock := l\<rparr>, g\<lparr>pc := Idle\<rparr>))
      | Get_Version \<Rightarrow> (u, g\<lparr>pc := Get_MinAuto (Version (latest u))\<rparr>)
      | Get_MinAuto rv \<Rightarrow> (u, g\<lparr>pc := Get_RolloutProportion rv (MinAuto (latest u))\<rparr>)
      | Get_RolloutProportion rv rm \<Rightarrow>
          (u, g\<lparr>pc := Get_RUnlock rv rm (RolloutProportion (latest u))\<rparr>)
      | Get_RUnlock rv rm rr \<Rightarrow>
          (case RUnlock (lock u) of
             None \<Rightarrow> (u, g\<lparr>pc := Fatal\<rparr>)
           | Some l \<Rightarrow>
               (u\<lparr>lock := l\<rparr>,
                g\<lparr>pc := Idle,
                  returned := returned g @
                    [(\<lparr>Version = rv, MinAuto = rm, RolloutProportion = rr\<rparr>, nil_error)]\<rparr>))
      | Fatal \<Rightarrow> (u, g))"

text \<open>
  A schedule is a list of goroutine numbers: \<open>exec\<close> lets the goroutines take one step
  each in that order, from \<open>start\<close>, where the updater is new and every goroutine is
  about to make the first of its calls. Every interleaving of the goroutines' steps is
  a schedule.
\<close>

definition sched_step ::
  "nat \<Rightarrow> ('v, 'vi) TestUpdater \<times> 'v goroutine list
     \<Rightarrow> ('v, 'vi) TestUpdater \<times> 'v goroutine list" where
  "sched_step i c =
     (case c of
        (u, gs) \<Rightarrow>
          (if i < length gs
           then (case gstep u (gs ! i) of (u', g') \<Rightarrow> (u', gs[i := g']))
           else (u, gs)))"

fun exec ::
  "nat list \<Rightarrow> ('v, 'vi) TestUpdater \<times> 'v goroutine list
     \<Rightarrow> ('v, 'vi) TestUpdater \<times> 'v goroutine list" where
  "exec [] c = c"
| "exec (i # sched) c = exec sched (sched_step i c)"

definition go :: "'v ucall list \<Rightarrow> 'v goroutine" where
  "go calls = \<lparr>todo = calls, pc = Idle, returned = []\<rparr>"

definition start ::
  "'vi \<Rightarrow> 'v \<Rightarrow> 'v \<Rightarrow> 'v ucall list list \<Rightarrow> ('v, 'vi) TestUpdater \<times> 'v goroutine list" where
  "start zeroVersionInfo version minAuto progs =
     (NewTestUpdater zeroVersionInfo version minAuto, map go progs)"

text \<open>
  The pairs that the calls of the goroutines write, and the result that a read returns
  when \<open>latest\<close> holds the record of one write.
\<close>

fun written :: "'v ucall \<Rightarrow> ('v \<times> 'v) list" where
  "written (DoSetLatestVersionLegacy v m) = [(v, m)]"
| "written DoGetVersionInfoLegacy = []"

definition writes :: "'v ucall list list \<Rightarrow> ('v \<times> 'v) list" where
  "writes progs = concat (map written (concat progs))"

definition record_of :: "'v \<times> 'v \<Rightarrow> 'v VersionInfoLegacy \<times> error" where
  "record_of p = (\<lparr>Version = fst p, MinAuto = snd p, RolloutProportion = 1\<rparr>, nil_error)"

text \<open>
  The invariant of the interleaving, for a set \<open>W\<close> of written pairs. The mutex counts
  the goroutines inside a read and knows whether one is inside a write; a writer
  excludes readers; while no goroutine is inside a write, \<open>latest\<close> is the record of a
  pair of \<open>W\<close>; the fields that a goroutine has stored or read so far are the fields
  that \<open>latest\<close> holds now; all results returned are records of pairs of \<open>W\<close>.
\<close>

fun writing :: "'v pc \<Rightarrow> bool" where
  "writing (Set_Version v m) = True"
| "writing (Set_MinAuto v m) = True"
| "writing (Set_RolloutProportion v m) = True"
| "writing (Set_Unlock v m) = True"
| "writing _ = False"

fun reading :: "'v pc \<Rightarrow> bool" where
  "reading Get_Version = True"
| "reading (Get_MinAuto rv) = True"
| "reading (Get_RolloutProportion rv rm) = True"
| "reading (Get_RUnlock rv rm rr) = True"
| "reading _ = False"

fun pc_ok :: "('v \<times> 'v) set \<Rightarrow> 'v VersionInfoLegacy \<Rightarrow> 'v pc \<Rightarrow> bool" where
  "pc_ok W r Idle = True"
| "pc_ok W r (Set_Version v m) = ((v, m) \<in> W)"
| "pc_ok W r (Set_MinAuto v m) = ((v, m) \<in> W \<and> Version r = v)"
| "pc_ok W r (Set_RolloutProportion v m) = ((v, m) \<in> W \<and> Version r = v \<and> MinAuto r = m)"
| "pc_ok W r (Set_Unlock v m) =
     ((v, m) \<in> W \<and> Version r = v \<and> MinAuto r = m \<and> RolloutProportion r = 1)"
| "pc_ok W r Get_Version = True"
| "pc_ok W r (Get_MinAuto rv) = (rv = Version r)"
| "pc_ok W r (Get_RolloutProportion rv rm) = (rv = Version r \<and> rm = MinAuto r)"
| "pc_ok W r (Get_RUnlock rv rm rr) =
     (rv = Version r \<and> rm = MinAuto r \<and> rr = RolloutProportion r)"
| "pc_ok W r Fatal = False"

definition good :: "('v \<times> 'v) set \<Rightarrow> 'v VersionInfoLegacy \<Rightarrow> 'v goroutine \<Rightarrow> bool" where
  "good W r g \<longleftrightarrow>
     (\<forall>c \<in> set (todo g). set (written c) \<subseteq> W) \<and>
     set (returned g) \<subseteq> record_of ` W \<and>
     pc_ok W r (pc g)"

definition lock_inv :: "('v \<times> 'v) set \<Rightarrow> ('v, 'vi) TestUpdater \<times> 'v goroutine list \<Rightarrow> bool" where
  "lock_inv W c \<longleftrightarrow>
     (case c of
        (u, gs) \<Rightarrow>
          readers (lock u) = length (filter (reading \<circ> pc) gs) \<and>
          length (filter (writing \<circ> pc) gs) = (if writer (lock u) then 1 else 0) \<and>
          (writer (lock u) \<longrightarrow> readers (lock u) = 0) \<and>
          (\<not> writer (lock u) \<longrightarrow>
             (Version (latest u), MinAuto (latest u)) \<in> W \<and> RolloutProportion (latest u) = 1) \<and>
          (\<forall>g \<in> set gs. good W (latest u) g))"

subsection \<open>Channels\<close>

text \<open>
  A channel value is nil or the address of a channel made by \<open>make\<close>; two channel values
  are the same channel exactly when they are equal. The heap records, for every channel
  made so far, whether it has been closed. \<open>make\<close> takes the next free address.

  The built-in \<open>close\<close> panics on a nil channel and on a channel that is closed already
  (with the runtime's messages below). An address beyond the heap is no channel of the
  program; for it the model answers with \<open>NoSuchChannel\<close>, which is no behaviour of Go.
\<close>

datatype chan = NilChan | Chan nat

type_synonym heap = "bool list"

datatype fault = Panic string | NoSuchChannel

definition make_chan :: "heap \<Rightarrow> chan \<times> heap" where
  "make_chan h = (Chan (length h), h @ [False])"

fun is_closed :: "chan \<Rightarrow> heap \<Rightarrow> bool" where
  "is_closed NilChan h = False"
| "is_closed (Chan a) h = (a < length h \<and> h ! a)"

fun close_chan :: "chan \<Rightarrow> heap \<Rightarrow> fault + heap" where
  "close_chan NilChan h = Inl (Panic ''close of nil channel'')"
| "close_chan (Chan a) h =
     (if a < length h
      then (if h ! a then Inl (Panic ''close of closed channel'') else Inr (h[a := True]))
      else Inl NoSuchChannel)"

subsection \<open>The generated mocks and their expectations\<close>

text \<open>
  Modelled from the spec: the mock types of package \<open>internal/bridge/mocks\<close>
  (\<open>MockTLSReporter\<close>, \<open>MockPanicHandler\<close>, \<open>MockHeartbeatManager\<close>, \<open>MockReporter\<close>, ...)
  and the expectation engine they are built on are not in this file. The spec describes
  a mock as a recorder of programmed responses: an expectation says that a call pattern
  is allowed and what it returns, and \<open>NewMocks\<close> registers its expectations ``for an
  unbounded number of calls''; a call that no expectation allows is an unexpected call.

  An expectation names a method, has a matcher per argument and the values to return,
  and counts its calls. \<open>exp_max = None\<close> is the unbounded multiplicity of \<open>AnyTimes\<close>;
  an expectation that is not given a multiplicity allows one call.
\<close>

datatype val = ChanVal chan | DurationVal int | StringVal string | OtherVal

datatype matcher = AnyMatcher | EqMatcher val

record expectation =
  exp_method :: string
  exp_args :: "matcher list"
  exp_rets :: "val list"
  exp_max :: "nat option"
  exp_num :: nat

type_synonym mock = "expectation list"

definition NewMock :: mock where
  "NewMock = []"

definition EXPECT :: "string \<Rightarrow> matcher list \<Rightarrow> expectation" where
  "EXPECT meth ms =
     \<lparr>exp_method = meth, exp_args = ms, exp_rets = [], exp_max = Some 1, exp_num = 0\<rparr>"

definition Return :: "val list \<Rightarrow> expectation \<Rightarrow> expectation" where
  "Return vs e = e\<lparr>exp_rets := vs\<rparr>"

definition AnyTimes :: "expectation \<Rightarrow> expectation" where
  "AnyTimes e = e\<lparr>exp_max := None\<rparr>"

definition register :: "expectation \<Rightarrow> mock \<Rightarrow> mock" where
  "register e m = m @ [e]"






subsection \<open>Mocks\<close>

text \<open>
  The harness holds its collaborators by pointer; the record holds them by value (no
  claim here depends on two owners of one collaborator). \<open>NewMocks\<close> takes the heap in
  which \<open>make\<close> allocates the channel and returns it with the harness. The controller
  made from \<open>tb\<close> is the expectation engine, which is part of each mock here.
  \<open>500 * time.Millisecond\<close> is a \<open>time.Duration\<close>, a number of nanoseconds.
\<close>

record ('v, 'vi) Mocks =
  ProxyCtl :: mock
  TLSReporter :: mock
  TLSIssueCh :: chan
  Updater :: "('v, 'vi) TestUpdater"
  Autostarter :: mock
  CrashHandler :: mock
  Reporter :: mock
  Heartbeat :: mock

definition NewMocks :: "'tb \<Rightarrow> 'vi \<Rightarrow> 'v \<Rightarrow> 'v \<Rightarrow> heap \<Rightarrow> ('v, 'vi) Mocks \<times> heap" where
  "NewMocks tb zeroVersionInfo version minAuto h =
     (let (ch, h') = make_chan h;
          mocks = \<lparr>ProxyCtl = NewMock,
                   TLSReporter = NewMock,
                   TLSIssueCh = ch,
                   Updater = NewTestUpdater zeroVersionInfo version minAuto,
                   Autostarter = NewMock,
                   CrashHandler = NewMock,
                   Reporter = NewMock,
                   Heartbeat = NewMock\<rparr>;
          mocks = mocks\<lparr>TLSReporter :=
                    register (AnyTimes (Return [ChanVal (TLSIssueCh mocks)]
                                (EXPECT ''GetTLSIssueCh'' [])))
                      (TLSReporter mocks)\<rparr>;
          mocks = mocks\<lparr>CrashHandler :=
                    register (AnyTimes (EXPECT ''HandlePanic'' [AnyMatcher]))
                      (CrashHandler mocks)\<rparr>;
          mocks = mocks\<lparr>Heartbeat :=
                    register (AnyTimes (EXPECT ''IsTelemetryAvailable'' [AnyMatcher]))
                      (Heartbeat mocks)\<rparr>;
          mocks = mocks\<lparr>Heartbeat :=
                    register (Return [DurationVal (500 * 1000000)]
                                (AnyTimes (EXPECT ''GetHeartbeatPeriodicInterval'' [])))
                      (Heartbeat mocks)\<rparr>;
          mocks = mocks\<lparr>Reporter :=
                    register (AnyTimes (EXPECT ''ReportMessageWithContext''
                                [EqMatcher (StringVal ''Failed to sync, will retry later''),
                                 AnyMatcher]))
                      (Reporter mocks)\<rparr>
      in (mocks, h'))"

definition Close :: "('v, 'vi) Mocks \<Rightarrow> heap \<Rightarrow> fault + heap" where
  "Close mocks h = close_chan (TLSIssueCh mocks) h"

subsection \<open>TestCookieJar\<close>

text \<open>
  The methods take a \<open>*url.URL\<close>: \<open>None\<close> is the nil pointer, and reading \<open>u.Host\<close>
  through it is the runtime's nil dereference panic. Of \<open>url.URL\<close> the code reads the
  field \<open>Host\<close> alone; the record has two more of its fields, so that different URLs of
  one host exist. The \<open>cookies\<close> field is a Go map: \<open>None\<close> is the nil map of a jar that
  was not made by \<open>NewTestCookieJar\<close>. Reading a key that a map does not hold, or
  reading a nil map, gives the zero value, the nil slice; assigning to an entry of a nil
  map panics. In \<open>j.cookies[u.Host] = cookies\<close> the operands are evaluated before the
  assignment, so a nil \<open>u\<close> panics first.
\<close>

record URL =
  Scheme :: string
  Host :: string
  Path :: string

record 'c TestCookieJar =
  cookies :: "(string \<rightharpoonup> 'c slice) option"

definition nil_dereference :: fault where
  "nil_dereference = Panic ''runtime error: invalid memory address or nil pointer dereference''"

definition NewTestCookieJar :: "'c TestCookieJar" where
  "NewTestCookieJar = \<lparr>cookies = Some Map.empty\<rparr>"

definition SetCookies ::
  "URL option \<Rightarrow> 'c slice \<Rightarrow> 'c TestCookieJar \<Rightarrow> fault + 'c TestCookieJar" where
  "SetCookies u cs j =
     (case u of
        None \<Rightarrow> Inl nil_dereference
      | Some url \<Rightarrow>
          (case cookies j of
             None \<Rightarrow> Inl (Panic ''assignment to entry in nil map'')
           | Some m \<Rightarrow> Inr (j\<lparr>cookies := Some (m(Host url \<mapsto> cs))\<rparr>)))"

definition Cookies :: "URL option \<Rightarrow> 'c TestCookieJar \<Rightarrow> fault + 'c slice" where
  "Cookies u j =
     (case u of
        None \<Rightarrow> Inl nil_dereference
      | Some url \<Rightarrow>
          (case cookies j of
             None \<Rightarrow> Inr NilSlice
           | Some m \<Rightarrow> (case m (Host url) of None \<Rightarrow> Inr NilSlice | Some cs \<Rightarrow> Inr cs)))"

text \<open>A sequence of \<open>SetCookies\<close> calls on one jar; it stops at the first panic.\<close>

fun SetCookies_all ::
  "(URL option \<times> 'c slice) list \<Rightarrow> 'c TestCookieJar \<Rightarrow> fault + 'c TestCookieJar" where
  "SetCookies_all [] j = Inr j"
| "SetCookies_all ((u, cs) # rest) j =
     (case SetCookies u cs j of Inl e \<Rightarrow> Inl e | Inr j' \<Rightarrow> SetCookies_all rest j')"

subsection \<open>TestLocationsProvider\<close>

text \<open>
  The constructor makes its three directories with \<open>os.MkdirTemp\<close>, which is the
  operating system's and not in this file. The file system is the list of the paths of
  the directories that exist; \<open>MkdirTemp\<close> is a parameter of the constructor, a function
  from the file system, the directory and the pattern to an error or the path of the
  new directory and the file system that has it.
\<close>

type_synonym filesystem = "string list"

text \<open>
  Modelled from the spec: \<open>os.MkdirTemp\<close> and the file system it works on. The spec has
  each path be ``a freshly created, uniquely named temporary directory path scoped
  under a caller-supplied root'': when the call returns a path, no directory of that
  path existed, afterwards it exists together with all that existed before, and the
  path lies under the directory the caller gave. What it is for a path to lie under a
  directory is the file system's to say (the spec has no word on it, nor on the empty
  root, for which Go's \<open>MkdirTemp\<close> turns to the default directory for temporary
  files), so \<open>lies_under\<close> is a parameter as well.
\<close>

definition MkdirTemp_spec ::
  "(filesystem \<Rightarrow> string \<Rightarrow> string \<Rightarrow> string + string \<times> filesystem)
     \<Rightarrow> (string \<Rightarrow> string \<Rightarrow> bool) \<Rightarrow> bool" where
  "MkdirTemp_spec MkdirTemp lies_under \<longleftrightarrow>
     (\<forall>fs dir pattern name fs'.
        MkdirTemp fs dir pattern = Inr (name, fs') \<longrightarrow>
          name \<notin> set fs \<and> set fs' = insert name (set fs) \<and> lies_under dir name)"

text \<open>
  From the source: the three calls with the caller's \<open>dir\<close> and the patterns
  \<open>config\<close>, \<open>data\<close> and \<open>cache\<close>, each on the file system the call before left; the
  panic with the error of the first call that fails; the three fields and the methods
  that return them.
\<close>

record TestLocationsProvider =
  config :: string
  data :: string
  cache :: string

definition NewTestLocationsProvider ::
  "(filesystem \<Rightarrow> string \<Rightarrow> string \<Rightarrow> string + string \<times> filesystem)
     \<Rightarrow> string \<Rightarrow> filesystem \<Rightarrow> fault + TestLocationsProvider \<times> filesystem" where
  "NewTestLocationsProvider MkdirTemp dir fs =
     (case MkdirTemp fs dir ''config'' of
        Inl err \<Rightarrow> Inl (Panic err)
      | Inr (configDir, fs1) \<Rightarrow>
          (case MkdirTemp fs1 dir ''data'' of
             Inl err \<Rightarrow> Inl (Panic err)
           | Inr (dataDir, fs2) \<Rightarrow>
               (case MkdirTemp fs2 dir ''cache'' of
                  Inl err \<Rightarrow> Inl (Panic err)
                | Inr (cacheDir, fs3) \<Rightarrow>
                    Inr (\<lparr>config = configDir, data = dataDir, cache = cacheDir\<rparr>, fs3))))"

definition UserConfig :: "TestLocationsProvider \<Rightarrow> string" where
  "UserConfig provider = config provider"

definition UserData :: "TestLocationsProvider \<Rightarrow> string" where
  "UserData provider = data provider"

definition UserCache :: "TestLocationsProvider \<Rightarrow> string" where
  "UserCache provider = cache provider"

text \<open>
  One \<open>MkdirTemp\<close> that does what the spec says, to show that it can be done: it fails
  when the directory does not exist, and else appends to the pattern more zeros than
  any existing path is long. A path lies under a directory here when it is the
  directory, a slash and a name.
\<close>

definition longest :: "filesystem \<Rightarrow> nat" where
  "longest fs = fold (\<lambda>p n. max (length p) n) fs 0"

definition MkdirTemp_numbered ::
  "filesystem \<Rightarrow> string \<Rightarrow> string \<Rightarrow> string + string \<times> filesystem" where
  "MkdirTemp_numbered fs dir pattern =
     (if dir \<in> set fs
      then (let name = dir @ ''/'' @ pattern @ replicate (Suc (longest fs)) (CHR ''0'')
            in Inr (name, name # fs))
      else Inl ''no such file or directory'')"

definition under_prefix :: "string \<Rightarrow> string \<Rightarrow> bool" where
  "under_prefix dir name \<longleftrightarrow>
     length dir + 1 < length name \<and> take (length dir + 1) name = dir @ ''/''"

section \<open>Properties\<close>

subsection \<open>TestUpdater: calls on an unlocked updater\<close>

text \<open>
  Between two calls of a single caller the mutex is unlocked. On such a state every
  method returns, and leaves the mutex unlocked again.
\<close>

lemma SetLatestVersionLegacy_unlocked:
  "lock u = RWMutex_zero \<Longrightarrow>
   SetLatestVersionLegacy v m u =
     Some (u\<lparr>latest := \<lparr>Version = v, MinAuto = m, RolloutProportion = 1\<rparr>\<rparr>)"
  by (simp add: SetLatestVersionLegacy_def Lock_def Unlock_def RWMutex_zero_def)

lemma SetLatestVersion_unlocked:
  "lock u = RWMutex_zero \<Longrightarrow> SetLatestVersion r u = Some (u\<lparr>releases := r\<rparr>)"
  by (simp add: SetLatestVersion_def Lock_def Unlock_def RWMutex_zero_def)

lemma GetVersionInfoLegacy_unlocked:
  "lock u = RWMutex_zero \<Longrightarrow>
   GetVersionInfoLegacy ctx dl ch u = Some ((latest u, nil_error), u)"
  by (simp add: GetVersionInfoLegacy_def RLock_def RUnlock_def RWMutex_zero_def)

lemma GetVersionInfo_unlocked:
  "lock u = RWMutex_zero \<Longrightarrow>
   GetVersionInfo ctx dl u = Some ((releases u, nil_error), u)"
  by (simp add: GetVersionInfo_def RLock_def RUnlock_def RWMutex_zero_def)

lemma lock_NewTestUpdater: "lock (NewTestUpdater z v m) = RWMutex_zero"
  by (simp add: NewTestUpdater_def)

lemma step_unlocked:
  "lock u = RWMutex_zero \<Longrightarrow>
   \<exists>u'. step c u = Some u' \<and> lock u' = RWMutex_zero \<and>
        RolloutProportion (latest u') =
          (case c of CallSetLatestVersionLegacy v m \<Rightarrow> 1
           | _ \<Rightarrow> RolloutProportion (latest u))"
  by (cases c)
     (simp_all add: SetLatestVersionLegacy_unlocked SetLatestVersion_unlocked
        GetVersionInfoLegacy_unlocked GetVersionInfo_unlocked
        InstallUpdateLegacy_def RemoveOldUpdates_def InstallUpdate_def)

lemma run_unlocked:
  "lock u = RWMutex_zero \<Longrightarrow> RolloutProportion (latest u) = 1 \<Longrightarrow>
   \<exists>u'. run cs u = Some u' \<and> lock u' = RWMutex_zero \<and> RolloutProportion (latest u') = 1"
proof (induction cs arbitrary: u)
  case Nil
  then show ?case by simp
next
  case (Cons c cs)
  from step_unlocked [OF Cons.prems(1), of c] obtain u1 where
    s: "step c u = Some u1" and l: "lock u1 = RWMutex_zero"
    and r: "RolloutProportion (latest u1) =
      (case c of CallSetLatestVersionLegacy v m \<Rightarrow> 1 | _ \<Rightarrow> RolloutProportion (latest u))"
    by blast
  from r Cons.prems(2) have "RolloutProportion (latest u1) = 1"
    by (cases c) simp_all
  from Cons.IH [OF l this] s show ?case by simp
qed

lemma run_SetLatestVersionLegacy:
  "lock u = RWMutex_zero \<Longrightarrow>
   run (map (\<lambda>(v, m). CallSetLatestVersionLegacy v m) calls) u =
     Some (u\<lparr>latest :=
       \<lparr>Version = fst (last ((Version (latest u), MinAuto (latest u)) # calls)),
        MinAuto = snd (last ((Version (latest u), MinAuto (latest u)) # calls)),
        RolloutProportion = (if calls = [] then RolloutProportion (latest u) else 1)\<rparr>\<rparr>)"
proof (induction calls arbitrary: u)
  case Nil
  then show ?case by simp
next
  case (Cons c calls)
  obtain v m where c: "c = (v, m)" by (cases c)
  let ?u1 = "u\<lparr>latest := \<lparr>Version = v, MinAuto = m, RolloutProportion = 1\<rparr>\<rparr>"
  have l: "lock ?u1 = RWMutex_zero" using Cons.prems by simp
  show ?case
    using Cons.IH [OF l] Cons.prems
    by (simp add: c SetLatestVersionLegacy_unlocked)
qed

lemma run_SetLatestVersion:
  "lock u = RWMutex_zero \<Longrightarrow>
   run (map CallSetLatestVersion rs) u = Some (u\<lparr>releases := last (releases u # rs)\<rparr>)"
proof (induction rs arbitrary: u)
  case Nil
  then show ?case by simp
next
  case (Cons r rs)
  let ?u1 = "u\<lparr>releases := r\<rparr>"
  have l: "lock ?u1 = RWMutex_zero" using Cons.prems by simp
  show ?case
    using Cons.IH [OF l] Cons.prems
    by (simp add: SetLatestVersion_unlocked)
qed

text \<open>
  Claim C1. Take a \<open>TestUpdater\<close> from its constructor (seeded with \<open>version\<close> and
  \<open>minAuto\<close>) and make any sequence \<open>calls\<close> of \<open>SetLatestVersionLegacy\<close> calls on it.
  All of them return, and \<open>GetVersionInfoLegacy\<close>, whatever its context, downloader and
  channel, then returns the record with the \<open>Version\<close> and \<open>MinAuto\<close> of the last call
  (of the seed when there was no call), \<open>RolloutProportion\<close> 1.0, and the nil error.
\<close>

theorem GetVersionInfoLegacy_after_SetLatestVersionLegacy:
  "\<exists>u. run (map (\<lambda>(v, m). CallSetLatestVersionLegacy v m) calls)
          (NewTestUpdater zeroVersionInfo version minAuto) = Some u \<and>
        GetVersionInfoLegacy ctx downloader channel u =
          Some ((\<lparr>Version = fst (last ((version, minAuto) # calls)),
                  MinAuto = snd (last ((version, minAuto) # calls)),
                  RolloutProportion = 1\<rparr>, nil_error), u)"
  by (simp add: run_SetLatestVersionLegacy lock_NewTestUpdater GetVersionInfoLegacy_unlocked)
     (simp add: NewTestUpdater_def)

text \<open>
  Claim C2. On a \<open>TestUpdater\<close> from its constructor, \<open>GetVersionInfo\<close> returns the zero
  value of the release information and the nil error. After any sequence \<open>rs\<close> of
  \<open>SetLatestVersion\<close> calls, all of which return, it returns the argument of the last
  call as it was given, and the nil error.
\<close>

theorem GetVersionInfo_after_SetLatestVersion:
  "GetVersionInfo ctx downloader (NewTestUpdater zeroVersionInfo version minAuto) =
     Some ((zeroVersionInfo, nil_error), NewTestUpdater zeroVersionInfo version minAuto) \<and>
   (\<exists>u. run (map CallSetLatestVersion rs) (NewTestUpdater zeroVersionInfo version minAuto) =
          Some u \<and>
        GetVersionInfo ctx downloader u = Some ((last (zeroVersionInfo # rs), nil_error), u))"
  by (simp add: run_SetLatestVersion lock_NewTestUpdater GetVersionInfo_unlocked)
     (simp add: NewTestUpdater_def)

text \<open>
  Claim C4. The constructor stores \<open>RolloutProportion\<close> 1.0 whatever its arguments;
  \<open>SetLatestVersionLegacy\<close>, on any state between two calls (the mutex is unlocked) and
  whatever that state holds and the arguments are, returns and leaves \<open>RolloutProportion\<close>
  1.0; and in the state that any sequence \<open>cs\<close> of calls of the public operations leads to
  from the constructor (every such sequence runs to its end), \<open>RolloutProportion\<close> of the
  legacy record is 1.0.
\<close>

theorem RolloutProportion_invariant:
  "RolloutProportion (latest (NewTestUpdater zeroVersionInfo version minAuto)) = 1 \<and>
   (lock u = RWMutex_zero \<longrightarrow>
      (\<exists>u'. SetLatestVersionLegacy v m u = Some u' \<and> RolloutProportion (latest u') = 1)) \<and>
   (\<exists>u'. run cs (NewTestUpdater zeroVersionInfo version minAuto) = Some u' \<and>
        RolloutProportion (latest u') = 1)"
proof -
  have r: "RolloutProportion (latest (NewTestUpdater zeroVersionInfo version minAuto)) = 1"
    by (simp add: NewTestUpdater_def)
  have s: "lock u = RWMutex_zero \<longrightarrow>
      (\<exists>u'. SetLatestVersionLegacy v m u = Some u' \<and> RolloutProportion (latest u') = 1)"
    by (simp add: SetLatestVersionLegacy_unlocked)
  from run_unlocked [OF lock_NewTestUpdater r, of cs] r s show ?thesis by blast
qed

theorem RolloutProportion_invariant_witness:
  "lock \<lparr>latest = \<lparr>Version = 1::nat, MinAuto = 0, RolloutProportion = 1 / 2\<rparr>,
         releases = 0::nat, lock = RWMutex_zero\<rparr> = RWMutex_zero \<and>
   (\<exists>u'. SetLatestVersionLegacy 3 2
            \<lparr>latest = \<lparr>Version = 1::nat, MinAuto = 0, RolloutProportion = 1 / 2\<rparr>,
             releases = 0::nat, lock = RWMutex_zero\<rparr> = Some u' \<and>
         RolloutProportion (latest u') = 1) \<and>
   (\<exists>u'. run [CallSetLatestVersion 7, CallGetVersionInfoLegacy () () (),
              CallSetLatestVersionLegacy 3 2, CallInstallUpdate () () ()]
            (NewTestUpdater (0::nat) (1::nat) 0) = Some u' \<and>
         RolloutProportion (latest u') = 1)"
proof -
  let ?u = "\<lparr>latest = \<lparr>Version = 1::nat, MinAuto = 0, RolloutProportion = 1 / 2\<rparr>,
             releases = 0::nat, lock = RWMutex_zero\<rparr>"
  have h: "lock ?u = RWMutex_zero" by simp
  from RolloutProportion_invariant
         [of "0::nat" "1::nat" 0 ?u 3 2
             "[CallSetLatestVersion 7, CallGetVersionInfoLegacy () () (),
               CallSetLatestVersionLegacy 3 2, CallInstallUpdate () () ()]"] h
  show ?thesis by simp
qed

text \<open>
  Claim C5. \<open>InstallUpdateLegacy\<close>, \<open>InstallUpdate\<close> and \<open>RemoveOldUpdates\<close> return the nil
  error for all arguments and in every state of the updater, and leave that state as it
  was.
\<close>

theorem install_and_remove_return_nil:
  "InstallUpdateLegacy ctx downloader info u = Some (nil_error, u) \<and>
   InstallUpdate ctx' downloader' release u = Some (nil_error, u) \<and>
   RemoveOldUpdates u = Some (nil_error, u)"
  by (simp add: InstallUpdateLegacy_def InstallUpdate_def RemoveOldUpdates_def)

text \<open>
  Claim C6. In every state between two calls (the mutex is unlocked),
  \<open>SetLatestVersionLegacy\<close> returns and leaves \<open>releases\<close> as it was, so that
  \<open>GetVersionInfo\<close> returns after the call what it returns before it; and
  \<open>SetLatestVersion\<close> returns and leaves \<open>latest\<close> as it was, so that
  \<open>GetVersionInfoLegacy\<close> returns after the call what it returns before it.
\<close>

theorem latest_and_releases_independent:
  assumes "lock u = RWMutex_zero"
  shows "(\<exists>u'. SetLatestVersionLegacy v m u = Some u' \<and> releases u' = releases u \<and>
            map_option fst (GetVersionInfo ctx downloader u') = Some (releases u, nil_error) \<and>
            map_option fst (GetVersionInfo ctx downloader u) = Some (releases u, nil_error)) \<and>
         (\<exists>u'. SetLatestVersion r u = Some u' \<and> latest u' = latest u \<and>
            map_option fst (GetVersionInfoLegacy ctx downloader channel u') =
              Some (latest u, nil_error) \<and>
            map_option fst (GetVersionInfoLegacy ctx downloader channel u) =
              Some (latest u, nil_error))"
  using assms
  by (simp add: SetLatestVersionLegacy_unlocked SetLatestVersion_unlocked
        GetVersionInfo_unlocked GetVersionInfoLegacy_unlocked)

theorem latest_and_releases_independent_witness:
  "lock (NewTestUpdater (0::nat) (1::nat) 2) = RWMutex_zero \<and>
   ((\<exists>u'. SetLatestVersionLegacy 3 4 (NewTestUpdater (0::nat) (1::nat) 2) = Some u' \<and>
       releases u' = releases (NewTestUpdater (0::nat) (1::nat) 2) \<and>
       map_option fst (GetVersionInfo () () u') =
         Some (releases (NewTestUpdater (0::nat) (1::nat) 2), nil_error) \<and>
       map_option fst (GetVersionInfo () () (NewTestUpdater (0::nat) (1::nat) 2)) =
         Some (releases (NewTestUpdater (0::nat) (1::nat) 2), nil_error)) \<and>
    (\<exists>u'. SetLatestVersion 5 (NewTestUpdater (0::nat) (1::nat) 2) = Some u' \<and>
       latest u' = latest (NewTestUpdater (0::nat) (1::nat) 2) \<and>
       map_option fst (GetVersionInfoLegacy () () () u') =
         Some (latest (NewTestUpdater (0::nat) (1::nat) 2), nil_error) \<and>
       map_option fst (GetVersionInfoLegacy () () () (NewTestUpdater (0::nat) (1::nat) 2)) =
         Some (latest (NewTestUpdater (0::nat) (1::nat) 2), nil_error)))"
proof -
  have h: "lock (NewTestUpdater (0::nat) (1::nat) 2) = RWMutex_zero"
    by (simp add: NewTestUpdater_def)
  show ?thesis
    by (rule conjI [OF h latest_and_releases_independent [OF h]])
qed

subsection \<open>Goroutines: no read between the stores of a write\<close>

text \<open>
  The invariant holds at the start and every step of every goroutine keeps it. The
  steps are taken one kind at a time: while a goroutine is inside a write, all others
  are outside both a write and a read, so its stores change nothing that another
  goroutine relies on; a load, and taking or giving back the lock, leave \<open>latest\<close> as it
  is.
\<close>

lemma pc_ok_idle: "\<not> writing p \<Longrightarrow> \<not> reading p \<Longrightarrow> pc_ok W r' p = pc_ok W r p"
  by (cases p) simp_all

lemma good_idle:
  "good W r g \<Longrightarrow> \<not> writing (pc g) \<Longrightarrow> \<not> reading (pc g) \<Longrightarrow> good W r' g"
  using pc_ok_idle [of "pc g" W r' r] by (simp add: good_def)


lemma writing_not_reading: "writing p \<Longrightarrow> \<not> reading p"
  by (cases p) simp_all

lemma reading_not_writing: "reading p \<Longrightarrow> \<not> writing p"
  by (cases p) simp_all

lemma record_of_W:
  "(v, m) \<in> W \<Longrightarrow>
   (\<lparr>Version = v, MinAuto = m, RolloutProportion = 1\<rparr>, nil_error) \<in> record_of ` W"
  by (force simp: record_of_def)

lemma inv_split:
  "lock_inv W (u, xs @ g # ys) \<longleftrightarrow>
     readers (lock u) =
       length (filter (reading \<circ> pc) xs) + (if reading (pc g) then 1 else 0) +
       length (filter (reading \<circ> pc) ys) \<and>
     length (filter (writing \<circ> pc) xs) + (if writing (pc g) then 1 else 0) +
       length (filter (writing \<circ> pc) ys) = (if writer (lock u) then 1 else 0) \<and>
     (writer (lock u) \<longrightarrow> readers (lock u) = 0) \<and>
     (\<not> writer (lock u) \<longrightarrow>
        (Version (latest u), MinAuto (latest u)) \<in> W \<and> RolloutProportion (latest u) = 1) \<and>
     good W (latest u) g \<and>
     (\<forall>x \<in> set xs \<union> set ys. good W (latest u) x)"
  by (auto simp: lock_inv_def)

lemma inv_writer:
  assumes I: "lock_inv W (u, xs @ g # ys)" and w: "writing (pc g)"
  shows "writer (lock u)" and "readers (lock u) = 0"
    and "\<forall>x \<in> set xs \<union> set ys. \<not> writing (pc x) \<and> \<not> reading (pc x)"
proof -
  from I have R: "length (filter (reading \<circ> pc) xs) + (if reading (pc g) then 1 else 0) +
      length (filter (reading \<circ> pc) ys) = readers (lock u)"
    and C: "length (filter (writing \<circ> pc) xs) + (if writing (pc g) then 1 else 0) +
      length (filter (writing \<circ> pc) ys) = (if writer (lock u) then 1 else 0)"
    and X: "writer (lock u) \<longrightarrow> readers (lock u) = 0"
    unfolding inv_split by auto
  from C w show wr: "writer (lock u)" by (simp split: if_splits)
  from X wr show r0: "readers (lock u) = 0" by simp
  from C w wr have "filter (writing \<circ> pc) xs = []" "filter (writing \<circ> pc) ys = []"
    by simp_all
  moreover from R r0 have "filter (reading \<circ> pc) xs = []" "filter (reading \<circ> pc) ys = []"
    by simp_all
  ultimately show "\<forall>x \<in> set xs \<union> set ys. \<not> writing (pc x) \<and> \<not> reading (pc x)"
    by (auto simp: filter_empty_conv)
qed

lemma inv_reader:
  assumes I: "lock_inv W (u, xs @ g # ys)" and r: "reading (pc g)"
  shows "\<not> writer (lock u)" and "0 < readers (lock u)"
proof -
  from I have R: "length (filter (reading \<circ> pc) xs) + (if reading (pc g) then 1 else 0) +
      length (filter (reading \<circ> pc) ys) = readers (lock u)"
    and X: "writer (lock u) \<longrightarrow> readers (lock u) = 0"
    unfolding inv_split by auto
  from R r show "0 < readers (lock u)" by auto
  with X show "\<not> writer (lock u)" by auto
qed

lemma others_idle:
  assumes "lock_inv W (u, xs @ g # ys)" and "writing (pc g)" and "x \<in> set xs \<union> set ys"
  shows "\<not> writing (pc x) \<and> \<not> reading (pc x)"
  using assms(3) inv_writer(3) [OF assms(1,2)] by blast

lemma inv_store:
  assumes I: "lock_inv W (u, xs @ g # ys)" and w: "writing (pc g)" and w': "writing p'"
    and ok: "pc_ok W r' p'"
  shows "lock_inv W (u\<lparr>latest := r'\<rparr>, xs @ g\<lparr>pc := p'\<rparr> # ys)"
proof -
  have others: "\<forall>x \<in> set xs \<union> set ys. good W r' x"
  proof
    fix x assume x: "x \<in> set xs \<union> set ys"
    from I x have "good W (latest u) x" by (simp add: inv_split)
    with others_idle [OF I w x] show "good W r' x" by (blast intro: good_idle)
  qed
  from I have "good W (latest u) g" by (simp add: inv_split)
  with ok have g: "good W r' (g\<lparr>pc := p'\<rparr>)" by (simp add: good_def)
  from I inv_writer(1,2) [OF I w] w w' writing_not_reading [OF w]
    writing_not_reading [OF w'] g others
  show ?thesis
    by (auto simp: inv_split)
qed

lemma inv_load:
  assumes I: "lock_inv W (u, xs @ g # ys)" and r: "reading (pc g)" and r': "reading p'"
    and ok: "pc_ok W (latest u) p'"
  shows "lock_inv W (u, xs @ g\<lparr>pc := p'\<rparr> # ys)"
proof -
  from I have "good W (latest u) g" by (simp add: inv_split)
  with ok have g: "good W (latest u) (g\<lparr>pc := p'\<rparr>)" by (simp add: good_def)
  from I r r' reading_not_writing [OF r] reading_not_writing [OF r'] g
  show ?thesis
    by (auto simp: inv_split)
qed

lemma inv_Lock:
  assumes I: "lock_inv W (u, xs @ g # ys)" and p: "pc g = Idle"
    and t: "todo g = DoSetLatestVersionLegacy v m # rest" and l: "Lock (lock u) = Some l"
  shows "lock_inv W (u\<lparr>lock := l\<rparr>, xs @ g\<lparr>todo := rest, pc := Set_Version v m\<rparr> # ys)"
  using assms by (auto simp: inv_split good_def Lock_def split: if_splits)

lemma inv_RLock:
  assumes I: "lock_inv W (u, xs @ g # ys)" and p: "pc g = Idle"
    and t: "todo g = DoGetVersionInfoLegacy # rest" and l: "RLock (lock u) = Some l"
  shows "lock_inv W (u\<lparr>lock := l\<rparr>, xs @ g\<lparr>todo := rest, pc := Get_Version\<rparr> # ys)"
  using assms by (auto simp: inv_split good_def RLock_def split: if_splits)

lemma inv_Unlock:
  assumes I: "lock_inv W (u, xs @ g # ys)" and p: "pc g = Set_Unlock v m"
  shows "\<exists>l. Unlock (lock u) = Some l \<and> lock_inv W (u\<lparr>lock := l\<rparr>, xs @ g\<lparr>pc := Idle\<rparr> # ys)"
  using assms by (auto simp: inv_split good_def Unlock_def split: if_splits)

lemma inv_RUnlock:
  assumes I: "lock_inv W (u, xs @ g # ys)" and p: "pc g = Get_RUnlock rv rm rr"
  shows "\<exists>l. RUnlock (lock u) = Some l \<and>
     lock_inv W (u\<lparr>lock := l\<rparr>,
       xs @ g\<lparr>pc := Idle,
              returned := returned g @
                [(\<lparr>Version = rv, MinAuto = rm, RolloutProportion = rr\<rparr>, nil_error)]\<rparr> # ys)"
  using assms by (auto simp: inv_split good_def RUnlock_def record_of_W split: if_splits)


lemma inv_gstep:
  assumes I: "lock_inv W (u, xs @ g # ys)" and S: "gstep u g = (u', g')"
  shows "lock_inv W (u', xs @ g' # ys)"
proof -
  from I have G: "pc_ok W (latest u) (pc g)" by (simp add: inv_split good_def)
  show ?thesis
  proof (cases "pc g")
    case Idle
    show ?thesis
    proof (cases "todo g")
      case Nil
      with Idle S I show ?thesis by (simp add: gstep_def)
    next
      case (Cons c rest)
      show ?thesis
      proof (cases c)
        case (DoSetLatestVersionLegacy v m)
        show ?thesis
        proof (cases "Lock (lock u)")
          case None
          with Idle Cons DoSetLatestVersionLegacy S I show ?thesis by (simp add: gstep_def)
        next
          case (Some l)
          with Idle Cons DoSetLatestVersionLegacy S
          have "u' = u\<lparr>lock := l\<rparr>" "g' = g\<lparr>todo := rest, pc := Set_Version v m\<rparr>"
            by (simp_all add: gstep_def)
          with inv_Lock [OF I Idle _ Some, of v m rest] Cons DoSetLatestVersionLegacy
          show ?thesis by simp
        qed
      next
        case DoGetVersionInfoLegacy
        show ?thesis
        proof (cases "RLock (lock u)")
          case None
          with Idle Cons DoGetVersionInfoLegacy S I show ?thesis by (simp add: gstep_def)
        next
          case (Some l)
          with Idle Cons DoGetVersionInfoLegacy S
          have "u' = u\<lparr>lock := l\<rparr>" "g' = g\<lparr>todo := rest, pc := Get_Version\<rparr>"
            by (simp_all add: gstep_def)
          with inv_RLock [OF I Idle _ Some, of rest] Cons DoGetVersionInfoLegacy
          show ?thesis by simp
        qed
      qed
    qed
  next
    case (Set_Version v m)
    with S have e: "u' = u\<lparr>latest := (latest u)\<lparr>Version := v\<rparr>\<rparr>" "g' = g\<lparr>pc := Set_MinAuto v m\<rparr>"
      by (simp_all add: gstep_def)
    from G Set_Version have "pc_ok W ((latest u)\<lparr>Version := v\<rparr>) (Set_MinAuto v m)" by simp
    from inv_store [OF I _ _ this] Set_Version e show ?thesis by simp
  next
    case (Set_MinAuto v m)
    with S have e: "u' = u\<lparr>latest := (latest u)\<lparr>MinAuto := m\<rparr>\<rparr>"
        "g' = g\<lparr>pc := Set_RolloutProportion v m\<rparr>"
      by (simp_all add: gstep_def)
    from G Set_MinAuto
    have "pc_ok W ((latest u)\<lparr>MinAuto := m\<rparr>) (Set_RolloutProportion v m)" by simp
    from inv_store [OF I _ _ this] Set_MinAuto e show ?thesis by simp
  next
    case (Set_RolloutProportion v m)
    with S have e: "u' = u\<lparr>latest := (latest u)\<lparr>RolloutProportion := 1\<rparr>\<rparr>"
        "g' = g\<lparr>pc := Set_Unlock v m\<rparr>"
      by (simp_all add: gstep_def)
    from G Set_RolloutProportion
    have "pc_ok W ((latest u)\<lparr>RolloutProportion := 1\<rparr>) (Set_Unlock v m)" by simp
    from inv_store [OF I _ _ this] Set_RolloutProportion e show ?thesis by simp
  next
    case (Set_Unlock v m)
    from inv_Unlock [OF I Set_Unlock] obtain l where
      l: "Unlock (lock u) = Some l" and i: "lock_inv W (u\<lparr>lock := l\<rparr>, xs @ g\<lparr>pc := Idle\<rparr> # ys)"
      by blast
    from S Set_Unlock l have "u' = u\<lparr>lock := l\<rparr>" "g' = g\<lparr>pc := Idle\<rparr>"
      by (simp_all add: gstep_def)
    with i show ?thesis by simp
  next
    case Get_Version
    with S have e: "u' = u" "g' = g\<lparr>pc := Get_MinAuto (Version (latest u))\<rparr>"
      by (auto simp: gstep_def)
    have "pc_ok W (latest u) (Get_MinAuto (Version (latest u)))" by simp
    from inv_load [OF I _ _ this] Get_Version e show ?thesis by simp
  next
    case (Get_MinAuto rv)
    with S have e: "u' = u" "g' = g\<lparr>pc := Get_RolloutProportion rv (MinAuto (latest u))\<rparr>"
      by (auto simp: gstep_def)
    from G Get_MinAuto
    have "pc_ok W (latest u) (Get_RolloutProportion rv (MinAuto (latest u)))" by simp
    from inv_load [OF I _ _ this] Get_MinAuto e show ?thesis by simp
  next
    case (Get_RolloutProportion rv rm)
    with S have e: "u' = u" "g' = g\<lparr>pc := Get_RUnlock rv rm (RolloutProportion (latest u))\<rparr>"
      by (auto simp: gstep_def)
    from G Get_RolloutProportion
    have "pc_ok W (latest u) (Get_RUnlock rv rm (RolloutProportion (latest u)))" by simp
    from inv_load [OF I _ _ this] Get_RolloutProportion e show ?thesis by simp
  next
    case (Get_RUnlock rv rm rr)
    from inv_RUnlock [OF I Get_RUnlock] obtain l where
      l: "RUnlock (lock u) = Some l"
      and i: "lock_inv W (u\<lparr>lock := l\<rparr>,
        xs @ g\<lparr>pc := Idle,
               returned := returned g @
                 [(\<lparr>Version = rv, MinAuto = rm, RolloutProportion = rr\<rparr>, nil_error)]\<rparr> # ys)"
      by blast
    from S Get_RUnlock l have "u' = u\<lparr>lock := l\<rparr>"
      "g' = g\<lparr>pc := Idle,
              returned := returned g @
                [(\<lparr>Version = rv, MinAuto = rm, RolloutProportion = rr\<rparr>, nil_error)]\<rparr>"
      by (simp_all add: gstep_def)
    with i show ?thesis by simp
  next
    case Fatal
    with G show ?thesis by simp
  qed
qed

lemma inv_sched_step: "lock_inv W c \<Longrightarrow> lock_inv W (sched_step i c)"
proof -
  assume I: "lock_inv W c"
  obtain u gs where c: "c = (u, gs)" by (cases c)
  show ?thesis
  proof (cases "i < length gs")
    case False
    with I c show ?thesis by (simp add: sched_step_def)
  next
    case True
    obtain u' g' where s: "gstep u (gs ! i) = (u', g')" by (cases "gstep u (gs ! i)")
    from True have d: "gs = take i gs @ gs ! i # drop (Suc i) gs"
      by (rule id_take_nth_drop)
    from True have d': "gs[i := g'] = take i gs @ g' # drop (Suc i) gs"
      by (rule upd_conv_take_nth_drop)
    from I c d have "lock_inv W (u, take i gs @ gs ! i # drop (Suc i) gs)" by simp
    from inv_gstep [OF this s] d' have "lock_inv W (u', gs[i := g'])" by simp
    with True s c show ?thesis by (simp add: sched_step_def)
  qed
qed

lemma inv_exec: "lock_inv W c \<Longrightarrow> lock_inv W (exec sched c)"
  by (induction sched arbitrary: c) (simp_all add: inv_sched_step)

lemma inv_start:
  "lock_inv (set ((version, minAuto) # writes progs)) (start zeroVersionInfo version minAuto progs)"
  by (auto simp: lock_inv_def start_def NewTestUpdater_def RWMutex_zero_def go_def good_def writes_def
        filter_empty_conv)

text \<open>
  A goroutine that runs alone makes a call in five steps, with the result of the method
  as defined for a single caller.
\<close>

lemma alone_SetLatestVersionLegacy:
  assumes "SetLatestVersionLegacy v m u = Some u'"
  shows "exec [0, 0, 0, 0, 0]
           (u, [\<lparr>todo = DoSetLatestVersionLegacy v m # rest, pc = Idle, returned = rs\<rparr>]) =
         (u', [\<lparr>todo = rest, pc = Idle, returned = rs\<rparr>])"
proof -
  from assms have l: "Lock (lock u) = Some ((lock u)\<lparr>writer := True\<rparr>)"
    and u': "u' = u\<lparr>latest := \<lparr>Version = v, MinAuto = m, RolloutProportion = 1\<rparr>,
                   lock := (lock u)\<lparr>writer := False\<rparr>\<rparr>"
    by (auto simp: SetLatestVersionLegacy_def Lock_def Unlock_def split: if_splits)
  show ?thesis
    by (simp add: sched_step_def gstep_def l u' Unlock_def)
qed

lemma alone_GetVersionInfoLegacy:
  assumes "GetVersionInfoLegacy ctx dl ch u = Some (result, u')"
  shows "exec [0, 0, 0, 0, 0]
           (u, [\<lparr>todo = DoGetVersionInfoLegacy # rest, pc = Idle, returned = rs\<rparr>]) =
         (u', [\<lparr>todo = rest, pc = Idle, returned = rs @ [result]\<rparr>])"
proof -
  from assms have l: "RLock (lock u) = Some ((lock u)\<lparr>readers := Suc (readers (lock u))\<rparr>)"
    and u': "u' = u" and r: "result = (latest u, nil_error)"
    by (auto simp: GetVersionInfoLegacy_def RLock_def RUnlock_def split: if_splits)
  show ?thesis
    by (simp add: sched_step_def gstep_def l u' r RUnlock_def)
qed

text \<open>
  The steps by themselves do not keep a read from seeing half a write: from a state in
  which the mutex is not held although a goroutine is between its stores of \<open>Version\<close>
  and \<open>MinAuto\<close> (a state that no schedule reaches), a read returns the new \<open>Version\<close>
  with the old \<open>MinAuto\<close>.
\<close>

lemma torn_read_without_lock:
  "snd (exec [1, 1, 1, 1, 1]
         (\<lparr>latest = \<lparr>Version = 3::nat, MinAuto = 2, RolloutProportion = 1\<rparr>,
           releases = (), lock = RWMutex_zero\<rparr>,
          [\<lparr>todo = [], pc = Set_MinAuto 3 4, returned = []\<rparr>,
           \<lparr>todo = [DoGetVersionInfoLegacy], pc = Idle, returned = []\<rparr>])) ! 1 =
   \<lparr>todo = [], pc = Idle,
    returned = [(\<lparr>Version = 3, MinAuto = 2, RolloutProportion = 1\<rparr>, nil_error)]\<rparr>"
  by (simp add: sched_step_def gstep_def RLock_def RUnlock_def RWMutex_zero_def)

text \<open>
  Claim C3. Any number of goroutines make any calls of \<open>SetLatestVersionLegacy\<close> and
  \<open>GetVersionInfoLegacy\<close> on one new \<open>TestUpdater\<close>, interleaved by any schedule. Every
  result that a read has returned is the record of one single write, with the \<open>Version\<close>
  and the \<open>MinAuto\<close> of that call (or both of the constructor's seed), with
  \<open>RolloutProportion\<close> 1.0 and the nil error; and no goroutine unlocks a mutex that is
  not locked.
\<close>

theorem no_partially_updated_read:
  "set (concat (map returned (snd (exec sched (start zeroVersionInfo version minAuto progs)))))
     \<subseteq> record_of ` set ((version, minAuto) # writes progs) \<and>
   Fatal \<notin> pc ` set (snd (exec sched (start zeroVersionInfo version minAuto progs)))"
proof -
  let ?W = "set ((version, minAuto) # writes progs)"
  obtain u gs where c: "exec sched (start zeroVersionInfo version minAuto progs) = (u, gs)"
    by (cases "exec sched (start zeroVersionInfo version minAuto progs)")
  have "lock_inv ?W (start zeroVersionInfo version minAuto progs)" by (rule inv_start)
  then have "lock_inv ?W (exec sched (start zeroVersionInfo version minAuto progs))"
    by (rule inv_exec)
  with c have "lock_inv ?W (u, gs)" by simp
  then have g: "\<forall>g \<in> set gs. good ?W (latest u) g" by (simp add: lock_inv_def)
  have 1: "set (concat (map returned gs)) \<subseteq> record_of ` ?W"
    using g by (auto simp: good_def)
  have 2: "Fatal \<notin> pc ` set gs"
  proof
    assume "Fatal \<in> pc ` set gs"
    then obtain x where "x \<in> set gs" "pc x = Fatal" by force
    with g show False by (auto simp: good_def)
  qed
  from 1 2 c show ?thesis by simp
qed

theorem no_partially_updated_read_witness:
  "map returned (snd (exec [0, 1, 0, 1, 0, 1, 0, 0, 1, 1, 1, 1, 1]
      (start () (1::nat) 2 [[DoSetLatestVersionLegacy 3 4], [DoGetVersionInfoLegacy]]))) =
     [[], [(\<lparr>Version = 3, MinAuto = 4, RolloutProportion = 1\<rparr>, nil_error)]] \<and>
   set (concat (map returned (snd (exec [0, 1, 0, 1, 0, 1, 0, 0, 1, 1, 1, 1, 1]
      (start () (1::nat) 2 [[DoSetLatestVersionLegacy 3 4], [DoGetVersionInfoLegacy]])))))
     \<subseteq> record_of ` set ((1, 2) # writes [[DoSetLatestVersionLegacy 3 4], [DoGetVersionInfoLegacy]]) \<and>
   Fatal \<notin> pc ` set (snd (exec [0, 1, 0, 1, 0, 1, 0, 0, 1, 1, 1, 1, 1]
      (start () (1::nat) 2 [[DoSetLatestVersionLegacy 3 4], [DoGetVersionInfoLegacy]])))"
proof -
  have "map returned (snd (exec [0, 1, 0, 1, 0, 1, 0, 0, 1, 1, 1, 1, 1]
      (start () (1::nat) 2 [[DoSetLatestVersionLegacy 3 4], [DoGetVersionInfoLegacy]]))) =
     [[], [(\<lparr>Version = 3, MinAuto = 4, RolloutProportion = 1\<rparr>, nil_error)]]"
    by (simp add: start_def go_def NewTestUpdater_def RWMutex_zero_def sched_step_def gstep_def
          Lock_def Unlock_def RLock_def RUnlock_def)
  with no_partially_updated_read [of "[0, 1, 0, 1, 0, 1, 0, 0, 1, 1, 1, 1, 1]" "()" "1::nat" 2
             "[[DoSetLatestVersionLegacy 3 4], [DoGetVersionInfoLegacy]]"]
  show ?thesis by blast
qed

subsection \<open>Mocks: the TLS issue channel\<close>


lemma TLSIssueCh_NewMocks: "TLSIssueCh (fst (NewMocks tb z v ma h)) = Chan (length h)"
  by (simp add: NewMocks_def make_chan_def)

lemma heap_NewMocks: "snd (NewMocks tb z v ma h) = h @ [False]"
  by (simp add: NewMocks_def make_chan_def)




text \<open>
  Claim C8. For the harness that \<open>NewMocks\<close> returns, the channel is open; a first
  \<open>Close\<close> returns and leaves the channel closed; a second \<open>Close\<close> after it does not
  return but panics with ``close of closed channel'', a fault that the caller can
  recover and tell from a normal return.
\<close>

theorem Close_once_then_panic:
  "(case NewMocks tb zeroVersionInfo version minAuto h of
      (mocks, h0) \<Rightarrow>
        \<not> is_closed (TLSIssueCh mocks) h0 \<and>
        (\<exists>h1. Close mocks h0 = Inr h1 \<and> is_closed (TLSIssueCh mocks) h1 \<and>
              Close mocks h1 = Inl (Panic ''close of closed channel'')))"
proof -
  obtain mocks h0 where eq: "NewMocks tb zeroVersionInfo version minAuto h = (mocks, h0)"
    by (cases "NewMocks tb zeroVersionInfo version minAuto h")
  have c: "TLSIssueCh mocks = Chan (length h)"
    using TLSIssueCh_NewMocks [of tb zeroVersionInfo version minAuto h] eq by simp
  have h0: "h0 = h @ [False]"
    using heap_NewMocks [of tb zeroVersionInfo version minAuto h] eq by simp
  show ?thesis
    by (simp add: eq Close_def c h0)
qed

subsection \<open>TestCookieJar\<close>

lemma SetCookies_made:
  "cookies j = Some m \<Longrightarrow>
   SetCookies (Some u) cs j = Inr (j\<lparr>cookies := Some (m(Host u \<mapsto> cs))\<rparr>)"
  by (simp add: SetCookies_def)

lemma SetCookies_all_made:
  "cookies j = Some m \<Longrightarrow>
   \<exists>j' m'. SetCookies_all (map (\<lambda>(u, cs). (Some u, cs)) sets) j = Inr j' \<and>
     cookies j' = Some m' \<and> (\<forall>k. k \<notin> Host ` fst ` set sets \<longrightarrow> m' k = m k)"
proof (induction sets arbitrary: j m)
  case Nil
  then show ?case by simp
next
  case (Cons p sets)
  obtain u cs where p: "p = (u, cs)" by (cases p)
  let ?j1 = "j\<lparr>cookies := Some (m(Host u \<mapsto> cs))\<rparr>"
  have "cookies ?j1 = Some (m(Host u \<mapsto> cs))" by simp
  from Cons.IH [OF this] obtain j' m' where
    "SetCookies_all (map (\<lambda>(u, cs). (Some u, cs)) sets) ?j1 = Inr j'" "cookies j' = Some m'"
    "\<forall>k. k \<notin> Host ` fst ` set sets \<longrightarrow> m' k = (m(Host u \<mapsto> cs)) k"
    by blast
  then show ?case
    using Cons.prems by (auto simp: p SetCookies_made)
qed

text \<open>
  Claim C10. The jar of \<open>NewTestCookieJar\<close> has a map, and on every jar that has one
  \<open>SetCookies\<close> with a URL \<open>u\<close> and a slice \<open>cs\<close> returns a jar that has one, in which
  \<open>Cookies\<close> returns \<open>cs\<close> (and nothing of what was stored before) for every URL \<open>u'\<close>
  with the host of \<open>u\<close>, and returns what it returned before the call for every URL
  with another host. After any sequence \<open>sets\<close> of \<open>SetCookies\<close> calls on a new jar,
  \<open>Cookies\<close> returns the nil slice for every URL whose host is not the host of one of
  these calls.
\<close>

theorem TestCookieJar_keyed_by_Host:
  fixes j :: "'c TestCookieJar"
  shows
  "cookies (NewTestCookieJar :: 'c TestCookieJar) \<noteq> None \<and>
   (cookies j \<noteq> None \<longrightarrow>
      (\<exists>j'. SetCookies (Some u) cs j = Inr j' \<and> cookies j' \<noteq> None \<and>
            Cookies (Some u') j' =
              (if Host u' = Host u then Inr cs else Cookies (Some u') j))) \<and>
   (\<exists>j'. SetCookies_all (map (\<lambda>(u, cs). (Some u, cs)) sets)
            (NewTestCookieJar :: 'c TestCookieJar) = Inr j' \<and>
         (Host u' \<notin> Host ` fst ` set sets \<longrightarrow> Cookies (Some u') j' = Inr NilSlice))"
proof (intro conjI)
  show "cookies (NewTestCookieJar :: 'c TestCookieJar) \<noteq> None"
    by (simp add: NewTestCookieJar_def)
next
  show "cookies j \<noteq> None \<longrightarrow>
      (\<exists>j'. SetCookies (Some u) cs j = Inr j' \<and> cookies j' \<noteq> None \<and>
            Cookies (Some u') j' =
              (if Host u' = Host u then Inr cs else Cookies (Some u') j))"
    by (auto simp: SetCookies_def Cookies_def)
next
  have "cookies (NewTestCookieJar :: 'c TestCookieJar) = Some Map.empty"
    by (simp add: NewTestCookieJar_def)
  from SetCookies_all_made [OF this, of sets] obtain j' m' where
    "SetCookies_all (map (\<lambda>(u, cs). (Some u, cs)) sets)
       (NewTestCookieJar :: 'c TestCookieJar) = Inr j'"
    "cookies j' = Some m'"
    "\<forall>k. k \<notin> Host ` fst ` set sets \<longrightarrow> m' k = None"
    by auto
  then show "\<exists>j'. SetCookies_all (map (\<lambda>(u, cs). (Some u, cs)) sets)
            (NewTestCookieJar :: 'c TestCookieJar) = Inr j' \<and>
         (Host u' \<notin> Host ` fst ` set sets \<longrightarrow> Cookies (Some u') j' = Inr NilSlice)"
    by (auto simp: Cookies_def)
qed

theorem TestCookieJar_keyed_by_Host_witness:
  "cookies (NewTestCookieJar :: nat TestCookieJar) \<noteq> None \<and>
   ''b.example'' \<notin>
     Host ` fst ` set [(\<lparr>Scheme = ''https'', Host = ''a.example'', Path = ''/''\<rparr>, Slice [1::nat])] \<and>
   (\<exists>j'. SetCookies (Some \<lparr>Scheme = ''https'', Host = ''a.example'', Path = ''/''\<rparr>)
            (Slice [2, 3]) (NewTestCookieJar :: nat TestCookieJar) = Inr j' \<and>
         Cookies (Some \<lparr>Scheme = ''http'', Host = ''a.example'', Path = ''/login''\<rparr>) j' =
           Inr (Slice [2, 3])) \<and>
   (\<exists>j'. SetCookies_all
            [(Some \<lparr>Scheme = ''https'', Host = ''a.example'', Path = ''/''\<rparr>, Slice [1::nat])]
            (NewTestCookieJar :: nat TestCookieJar) = Inr j' \<and>
         Cookies (Some \<lparr>Scheme = ''https'', Host = ''b.example'', Path = ''/''\<rparr>) j' =
           Inr NilSlice)"
proof -
  let ?a = "\<lparr>Scheme = ''https'', Host = ''a.example'', Path = ''/''\<rparr>"
  let ?a' = "\<lparr>Scheme = ''http'', Host = ''a.example'', Path = ''/login''\<rparr>"
  let ?b = "\<lparr>Scheme = ''https'', Host = ''b.example'', Path = ''/''\<rparr>"
  have h1: "cookies (NewTestCookieJar :: nat TestCookieJar) \<noteq> None"
    by (simp add: NewTestCookieJar_def)
  have h2: "Host ?b \<notin> Host ` fst ` set [(?a, Slice [1::nat])]"
    by simp
  have same: "Host ?a' = Host ?a" by simp
  from TestCookieJar_keyed_by_Host
         [of "NewTestCookieJar :: nat TestCookieJar" ?a "Slice [2, 3]" ?a' "[]"] h1 same
  have p1: "\<exists>j'. SetCookies (Some ?a) (Slice [2, 3]) (NewTestCookieJar :: nat TestCookieJar) = Inr j' \<and>
         Cookies (Some ?a') j' = Inr (Slice [2, 3])"
    by auto
  from TestCookieJar_keyed_by_Host
         [of "NewTestCookieJar :: nat TestCookieJar" ?a "Slice [2, 3]" ?b "[(?a, Slice [1::nat])]"] h2
  have p2: "\<exists>j'. SetCookies_all [(Some ?a, Slice [1::nat])] (NewTestCookieJar :: nat TestCookieJar) = Inr j' \<and>
         Cookies (Some ?b) j' = Inr NilSlice"
    by simp
  from h1 h2 p1 p2 show ?thesis by simp
qed

subsection \<open>TestLocationsProvider\<close>

lemma fold_max_le: "n \<le> fold (\<lambda>p n. max (length p) n) fs (n::nat)"
proof (induction fs arbitrary: n)
  case Nil
  then show ?case by simp
next
  case (Cons q fs)
  have "n \<le> max (length q) n" by simp
  also have "\<dots> \<le> fold (\<lambda>p n. max (length p) n) fs (max (length q) n)" by (rule Cons.IH)
  finally show ?case by simp
qed

lemma length_le_fold: "p \<in> set fs \<Longrightarrow> length p \<le> fold (\<lambda>p n. max (length p) n) fs n"
proof (induction fs arbitrary: n)
  case Nil
  then show ?case by simp
next
  case (Cons q fs)
  show ?case
  proof (cases "p = q")
    case True
    have "length q \<le> max (length q) n" by simp
    also have "\<dots> \<le> fold (\<lambda>p n. max (length p) n) fs (max (length q) n)" by (rule fold_max_le)
    finally show ?thesis using True by simp
  next
    case False
    with Cons show ?thesis by simp
  qed
qed

lemma length_le_longest: "p \<in> set fs \<Longrightarrow> length p \<le> longest fs"
  by (simp add: longest_def length_le_fold)

lemma MkdirTemp_numbered_spec: "MkdirTemp_spec MkdirTemp_numbered under_prefix"
  unfolding MkdirTemp_spec_def MkdirTemp_numbered_def under_prefix_def
  by (auto simp: Let_def dest!: length_le_longest split: if_splits)

lemma NewTestLocationsProvider_panics:
  "MkdirTemp fs dir ''config'' = Inl err \<Longrightarrow>
     NewTestLocationsProvider MkdirTemp dir fs = Inl (Panic err)"
  "MkdirTemp fs dir ''config'' = Inr (configDir, fs1) \<Longrightarrow>
   MkdirTemp fs1 dir ''data'' = Inl err \<Longrightarrow>
     NewTestLocationsProvider MkdirTemp dir fs = Inl (Panic err)"
  "MkdirTemp fs dir ''config'' = Inr (configDir, fs1) \<Longrightarrow>
   MkdirTemp fs1 dir ''data'' = Inr (dataDir, fs2) \<Longrightarrow>
   MkdirTemp fs2 dir ''cache'' = Inl err \<Longrightarrow>
     NewTestLocationsProvider MkdirTemp dir fs = Inl (Panic err)"
  by (simp_all add: NewTestLocationsProvider_def)

text \<open>
  Claim C9. When \<open>MkdirTemp\<close> does what the spec says and its three calls for the root
  \<open>dir\<close> succeed (for \<open>config\<close>, then \<open>data\<close>, then \<open>cache\<close>, each on the file system
  the call before left), the constructor returns a provider, with the file system the
  last call left. \<open>UserConfig\<close>, \<open>UserData\<close> and \<open>UserCache\<close> of that provider return the
  paths of the three calls, each of its own; these paths lie under \<open>dir\<close>, are no
  directories that existed before the constructor ran, are directories that exist after
  it, and are pairwise distinct.
\<close>

theorem TestLocationsProvider_directories:
  assumes spec: "MkdirTemp_spec MkdirTemp lies_under"
    and 1: "MkdirTemp fs dir ''config'' = Inr (configDir, fs1)"
    and 2: "MkdirTemp fs1 dir ''data'' = Inr (dataDir, fs2)"
    and 3: "MkdirTemp fs2 dir ''cache'' = Inr (cacheDir, fs3)"
  shows "\<exists>provider.
           NewTestLocationsProvider MkdirTemp dir fs = Inr (provider, fs3) \<and>
           UserConfig provider = configDir \<and> UserData provider = dataDir \<and>
           UserCache provider = cacheDir \<and>
           lies_under dir (UserConfig provider) \<and> lies_under dir (UserData provider) \<and>
           lies_under dir (UserCache provider) \<and>
           {UserConfig provider, UserData provider, UserCache provider} \<inter> set fs = {} \<and>
           {UserConfig provider, UserData provider, UserCache provider} \<subseteq> set fs3 \<and>
           distinct [UserConfig provider, UserData provider, UserCache provider]"
proof -
  let ?p = "\<lparr>config = configDir, data = dataDir, cache = cacheDir\<rparr>"
  from 1 2 3 have new: "NewTestLocationsProvider MkdirTemp dir fs = Inr (?p, fs3)"
    by (simp add: NewTestLocationsProvider_def)
  from spec 1 have c: "configDir \<notin> set fs" "set fs1 = insert configDir (set fs)"
      "lies_under dir configDir"
    unfolding MkdirTemp_spec_def by blast+
  from spec 2 have d: "dataDir \<notin> set fs1" "set fs2 = insert dataDir (set fs1)"
      "lies_under dir dataDir"
    unfolding MkdirTemp_spec_def by blast+
  from spec 3 have e: "cacheDir \<notin> set fs2" "set fs3 = insert cacheDir (set fs2)"
      "lies_under dir cacheDir"
    unfolding MkdirTemp_spec_def by blast+
  from c d e have
    "UserConfig ?p = configDir \<and> UserData ?p = dataDir \<and> UserCache ?p = cacheDir \<and>
     lies_under dir (UserConfig ?p) \<and> lies_under dir (UserData ?p) \<and>
     lies_under dir (UserCache ?p) \<and>
     {UserConfig ?p, UserData ?p, UserCache ?p} \<inter> set fs = {} \<and>
     {UserConfig ?p, UserData ?p, UserCache ?p} \<subseteq> set fs3 \<and>
     distinct [UserConfig ?p, UserData ?p, UserCache ?p]"
    by (auto simp: UserConfig_def UserData_def UserCache_def)
  with new show ?thesis by blast
qed

theorem TestLocationsProvider_directories_witness:
  "MkdirTemp_spec MkdirTemp_numbered under_prefix \<and>
   MkdirTemp_numbered [''/t''] ''/t'' ''config'' =
     Inr (''/t/config000'', [''/t/config000'', ''/t'']) \<and>
   MkdirTemp_numbered [''/t/config000'', ''/t''] ''/t'' ''data'' =
     Inr (''/t/data0000000000000'', [''/t/data0000000000000'', ''/t/config000'', ''/t'']) \<and>
   MkdirTemp_numbered [''/t/data0000000000000'', ''/t/config000'', ''/t''] ''/t'' ''cache'' =
     Inr (''/t/cache000000000000000000000'',
          [''/t/cache000000000000000000000'', ''/t/data0000000000000'', ''/t/config000'',
           ''/t'']) \<and>
   (\<exists>provider.
      NewTestLocationsProvider MkdirTemp_numbered ''/t'' [''/t''] =
        Inr (provider,
             [''/t/cache000000000000000000000'', ''/t/data0000000000000'', ''/t/config000'',
              ''/t'']) \<and>
      UserConfig provider = ''/t/config000'' \<and>
      UserData provider = ''/t/data0000000000000'' \<and>
      UserCache provider = ''/t/cache000000000000000000000'' \<and>
      under_prefix ''/t'' (UserConfig provider) \<and>
      under_prefix ''/t'' (UserData provider) \<and>
      under_prefix ''/t'' (UserCache provider) \<and>
      {UserConfig provider, UserData provider, UserCache provider} \<inter> set [''/t''] = {} \<and>
      {UserConfig provider, UserData provider, UserCache provider}
        \<subseteq> set [''/t/cache000000000000000000000'', ''/t/data0000000000000'',
                 ''/t/config000'', ''/t''] \<and>
      distinct [UserConfig provider, UserData provider, UserCache provider])"
proof -
  have 1: "MkdirTemp_numbered [''/t''] ''/t'' ''config'' =
     Inr (''/t/config000'', [''/t/config000'', ''/t''])"
    by (simp add: MkdirTemp_numbered_def longest_def Let_def)
  have 2: "MkdirTemp_numbered [''/t/config000'', ''/t''] ''/t'' ''data'' =
     Inr (''/t/data0000000000000'', [''/t/data0000000000000'', ''/t/config000'', ''/t''])"
    by (simp add: MkdirTemp_numbered_def longest_def Let_def)
  have 3: "MkdirTemp_numbered [''/t/data0000000000000'', ''/t/config000'', ''/t''] ''/t''
       ''cache'' =
     Inr (''/t/cache000000000000000000000'',
          [''/t/cache000000000000000000000'', ''/t/data0000000000000'', ''/t/config000'',
           ''/t''])"
    by (simp add: MkdirTemp_numbered_def longest_def Let_def)
  from MkdirTemp_numbered_spec 1 2 3
    TestLocationsProvider_directories [OF MkdirTemp_numbered_spec 1 2 3]
  show ?thesis by blast
qed

end
